theory Spec2Isabelle
  imports Main "HOL-Library.AList" "HOL-Library.Char_ord" "HOL-Library.List_Lexorder"
    "HOL-Library.Product_Lexorder"
begin

section \<open>The crafting planner of \<^verbatim>\<open>craft_planner.py\<close>\<close>

text \<open>
  A shallow embedding of \<^verbatim>\<open>src/craft_planner.py\<close>: the inventory state, the
  compilation of a rule into its checker and effector, the goal checker, the expansion
  \<^verbatim>\<open>graph\<close>, the \<^verbatim>\<open>heuristic\<close> and the \<^verbatim>\<open>search\<close> loop.

  \<^item> A \<^verbatim>\<open>State\<close> is an \<^verbatim>\<open>OrderedDict\<close> from item names to quantities. It is the list
    of its \<^verbatim>\<open>items()\<close>, in insertion order. \<^verbatim>\<open>OrderedDict.__eq__\<close> and the hash of
    \<^verbatim>\<open>tuple(self.items())\<close> are then equality of these lists, and \<^verbatim>\<open>__lt__\<close> is the
    lexicographic order of the tuples of pairs, which is the order of
    \<^typ>\<open>(string \<times> int) list\<close> given by the library's lexicographic orders on lists and
    pairs and the code-point order on characters.
  \<^item> Quantities, rule amounts and recipe costs are Python integers (what \<^verbatim>\<open>json.load\<close>
    gives for the numbers of \<^verbatim>\<open>Crafting.json\<close>): \<^typ>\<open>int\<close>.
  \<^item> An exception is a value of \<open>error\<close>; a computation that may raise returns a
    \<open>result\<close>.
\<close>

subsection \<open>Exceptions\<close>

datatype error =
    KeyError string
  | StateKeyError "(string \<times> int) list"
  | IndexError
  | OverflowError

datatype 'a result = Raise error | Return 'a

subsection \<open>State\<close>

type_synonym item = string

type_synonym State = "(item \<times> int) list"

text \<open>\<^verbatim>\<open>state[item]\<close>: the quantity, or \<^verbatim>\<open>KeyError\<close> when the item is not a key.\<close>

definition getitem :: "State \<Rightarrow> item \<Rightarrow> int result" where
  "getitem state item =
     (case map_of state item of None \<Rightarrow> Raise (KeyError item) | Some q \<Rightarrow> Return q)"

text \<open>
  \<^verbatim>\<open>State.copy\<close> builds an empty \<^verbatim>\<open>State\<close> and fills it with \<^verbatim>\<open>update(self)\<close>,
  which stores the items of \<^verbatim>\<open>self\<close> one after the other: a key that is new goes to the
  end, a key already there keeps its place.
\<close>

definition update_from :: "State \<Rightarrow> State \<Rightarrow> State" where
  "update_from new_state other = fold (\<lambda>(k, v). AList.update k v) other new_state"

definition copy :: "State \<Rightarrow> State" where
  "copy state = update_from [] state"

subsection \<open>Rules and recipes\<close>

text \<open>
  A rule is one entry of \<^verbatim>\<open>Crafting['Recipes']\<close>: a JSON object whose keys
  \<^verbatim>\<open>Requires\<close>, \<^verbatim>\<open>Consumes\<close> and \<^verbatim>\<open>Produces\<close> may be absent (\<open>None\<close>). The value
  under a \<^verbatim>\<open>Requires\<close> item is never read by the code.
\<close>

record rule =
  Requires :: "(item \<times> bool) list option"
  Consumes :: "(item \<times> int) list option"
  Produces :: "(item \<times> int) list option"
  Time :: int

text \<open>\<^verbatim>\<open>Recipe = namedtuple('Recipe', ['name', 'check', 'effect', 'cost'])\<close>\<close>

record Recipe =
  name :: string
  check :: "State \<Rightarrow> bool result"
  effect :: "State \<Rightarrow> State result"
  cost :: int

text \<open>
  The two loops of \<^verbatim>\<open>check\<close>. Each returns \<open>Return False\<close> where the source returns
  \<^verbatim>\<open>False\<close> from inside the loop, and \<open>Return True\<close> when the loop runs to its end.
\<close>

fun check_consumes :: "State \<Rightarrow> (item \<times> int) list \<Rightarrow> bool result" where
  "check_consumes state [] = Return True"
| "check_consumes state ((item, amount) # rest) =
     (case getitem state item of
        Raise e \<Rightarrow> Raise e
      | Return q \<Rightarrow> if q < amount then Return False else check_consumes state rest)"

fun check_requires :: "State \<Rightarrow> (item \<times> bool) list \<Rightarrow> bool result" where
  "check_requires state [] = Return True"
| "check_requires state ((item, flag) # rest) =
     (case getitem state item of
        Raise e \<Rightarrow> Raise e
      | Return q \<Rightarrow> if q = 0 then Return False else check_requires state rest)"

definition make_checker :: "rule \<Rightarrow> State \<Rightarrow> bool result" where
  "make_checker rule state =
     (case (case Consumes rule of None \<Rightarrow> Return True | Some c \<Rightarrow> check_consumes state c) of
        Raise e \<Rightarrow> Raise e
      | Return False \<Rightarrow> Return False
      | Return True \<Rightarrow>
          (case Requires rule of None \<Rightarrow> Return True | Some r \<Rightarrow> check_requires state r))"

text \<open>
  The two loops of \<^verbatim>\<open>effect\<close>: \<^verbatim>\<open>next_state[item] += value\<close> reads the item (a
  \<^verbatim>\<open>KeyError\<close> when it is absent) and stores the sum under the same key, whose place
  in the order does not change.
\<close>

fun produce :: "State \<Rightarrow> (item \<times> int) list \<Rightarrow> State result" where
  "produce next_state [] = Return next_state"
| "produce next_state ((item, amount) # rest) =
     (case getitem next_state item of
        Raise e \<Rightarrow> Raise e
      | Return q \<Rightarrow> produce (AList.update item (q + amount) next_state) rest)"

fun consume :: "State \<Rightarrow> (item \<times> int) list \<Rightarrow> State result" where
  "consume next_state [] = Return next_state"
| "consume next_state ((item, amount) # rest) =
     (case getitem next_state item of
        Raise e \<Rightarrow> Raise e
      | Return q \<Rightarrow> consume (AList.update item (q - amount) next_state) rest)"

definition make_effector :: "rule \<Rightarrow> State \<Rightarrow> State result" where
  "make_effector rule state =
     (case Produces rule of
        None \<Rightarrow> Raise (KeyError ''Produces'')
      | Some p \<Rightarrow>
          (case produce (copy state) p of
             Raise e \<Rightarrow> Raise e
           | Return next_state \<Rightarrow>
               (case Consumes rule of
                  None \<Rightarrow> Return next_state
                | Some c \<Rightarrow> consume next_state c)))"

text \<open>The recipe built for one rule by the main block.\<close>

definition make_recipe :: "string \<Rightarrow> rule \<Rightarrow> Recipe" where
  "make_recipe n rule =
     \<lparr>name = n, check = make_checker rule, effect = make_effector rule, cost = Time rule\<rparr>"

subsection \<open>Goal checker\<close>

fun make_goal_checker :: "(item \<times> int) list \<Rightarrow> State \<Rightarrow> bool result" where
  "make_goal_checker [] state = Return True"
| "make_goal_checker ((item, amount) # goal) state =
     (case getitem state item of
        Raise e \<Rightarrow> Raise e
      | Return q \<Rightarrow> if q < amount then Return False else make_goal_checker goal state)"

subsection \<open>Expansion\<close>

text \<open>
  \<^verbatim>\<open>graph\<close> is a generator over the global \<^verbatim>\<open>all_recipes\<close>, here its first argument.
  What a generator gives its consumer is the sequence of the values it yields and, when
  it raises, the exception after them: a list and an optional error.
\<close>

type_synonym edge = "string \<times> State \<times> int"

type_synonym expansion = "edge list \<times> error option"

fun graph :: "Recipe list \<Rightarrow> State \<Rightarrow> expansion" where
  "graph [] state = ([], None)"
| "graph (r # rs) state =
     (case check r state of
        Raise e \<Rightarrow> ([], Some e)
      | Return False \<Rightarrow> graph rs state
      | Return True \<Rightarrow>
          (case effect r state of
             Raise e \<Rightarrow> ([], Some e)
           | Return next_state \<Rightarrow>
               (case graph rs state of
                  (edges, err) \<Rightarrow> ((name r, next_state, cost r) # edges, err))))"

subsection \<open>Heuristic\<close>

text \<open>
  The heuristic returns the integer \<^verbatim>\<open>0\<close> or the float \<^verbatim>\<open>inf\<close>, and the search adds
  integer costs to what it returns: the numbers of the search are the integers and
  positive infinity. Python converts the integer to a float to add it to \<^verbatim>\<open>inf\<close>, which
  raises \<^verbatim>\<open>OverflowError\<close> for an integer that rounds to \<open>2 ^ 1024\<close> or beyond.
\<close>

datatype number = Fin int | PInf

definition float_limit :: int where
  "float_limit = 2 ^ 1024 - 2 ^ 970"

fun num_add :: "number \<Rightarrow> number \<Rightarrow> number result" where
  "num_add (Fin a) (Fin b) = Return (Fin (a + b))"
| "num_add (Fin a) PInf = (if \<bar>a\<bar> < float_limit then Return PInf else Raise OverflowError)"
| "num_add PInf (Fin b) = (if \<bar>b\<bar> < float_limit then Return PInf else Raise OverflowError)"
| "num_add PInf PInf = Return PInf"

fun num_less :: "number \<Rightarrow> number \<Rightarrow> bool" where
  "num_less (Fin a) (Fin b) = (a < b)"
| "num_less (Fin a) PInf = True"
| "num_less PInf y = False"

definition tools :: "item list" where
  "tools = [''furnace'', ''bench'', ''wooden_pickaxe'', ''wooden_axe'', ''stone_pickaxe'',
     ''stone_axe'', ''iron_pickaxe'', ''iron_axe'']"

definition materials_with_heuristic_value :: "(item \<times> int) list" where
  "materials_with_heuristic_value =
     [(''coal'', 1), (''cobble'', 8), (''wood'', 1), (''plank'', 8), (''stick'', 4),
      (''ore'', 1), (''ingot'', 6)]"

fun tools_loop :: "State \<Rightarrow> item list \<Rightarrow> bool result" where
  "tools_loop state [] = Return False"
| "tools_loop state (tool # rest) =
     (case getitem state tool of
        Raise e \<Rightarrow> Raise e
      | Return q \<Rightarrow> if q > 1 then Return True else tools_loop state rest)"

fun materials_loop :: "State \<Rightarrow> (item \<times> int) list \<Rightarrow> bool result" where
  "materials_loop state [] = Return False"
| "materials_loop state ((material, cap) # rest) =
     (case getitem state material of
        Raise e \<Rightarrow> Raise e
      | Return q \<Rightarrow> if q > cap then Return True else materials_loop state rest)"

text \<open>
  Each loop returns \<open>Return True\<close> where the source returns \<^verbatim>\<open>inf\<close> from inside it.
\<close>

definition heuristic :: "State \<Rightarrow> number result" where
  "heuristic state =
     (case tools_loop state tools of
        Raise e \<Rightarrow> Raise e
      | Return True \<Rightarrow> Return PInf
      | Return False \<Rightarrow>
          (case materials_loop state materials_with_heuristic_value of
             Raise e \<Rightarrow> Raise e
           | Return True \<Rightarrow> Return PInf
           | Return False \<Rightarrow> Return (Fin 0)))"

subsection \<open>The frontier\<close>

text \<open>
  An entry of the frontier is the tuple \<^verbatim>\<open>(priority, state, action)\<close>; the action of the
  start entry is \<^verbatim>\<open>None\<close>. \<^verbatim>\<open>heapq\<close> compares entries as tuples: by priority, then, at
  equal priorities, by state. It would compare the actions of two entries only if
  their states were equal too, and the frontier of \<^verbatim>\<open>search\<close> never holds two entries
  with the same state (lemma \<open>search_loop_inv\<close> below).

  The frontier is kept as the list of its entries: \<^verbatim>\<open>heappush\<close> adds one, \<^verbatim>\<open>heappop\<close>
  takes out the least one and raises \<^verbatim>\<open>IndexError\<close> on an empty list. The place of an
  entry inside the heap's array has no effect on what \<^verbatim>\<open>heappop\<close> returns.
\<close>

type_synonym entry = "number \<times> State \<times> string option"

definition entry_less :: "entry \<Rightarrow> entry \<Rightarrow> bool" where
  "entry_less x y =
     (case x of (p, s, a) \<Rightarrow> case y of (q, t, b) \<Rightarrow> num_less p q \<or> (p = q \<and> s < t))"

fun least :: "entry \<Rightarrow> entry list \<Rightarrow> entry" where
  "least m [] = m"
| "least m (x # xs) = least (if entry_less x m then x else m) xs"

definition heappush :: "entry list \<Rightarrow> entry \<Rightarrow> entry list" where
  "heappush queue e = queue @ [e]"

definition heappop :: "entry list \<Rightarrow> (entry \<times> entry list) result" where
  "heappop queue =
     (case queue of
        [] \<Rightarrow> Raise IndexError
      | e # es \<Rightarrow> (let m = least e es in Return (m, remove1 m queue)))"

subsection \<open>Search\<close>

text \<open>
  The parameters \<^verbatim>\<open>graph\<close> and \<^verbatim>\<open>heuristic\<close> of \<^verbatim>\<open>search\<close> are written \<open>graph_fn\<close> and
  \<open>heuristic_fn\<close>: they hide the functions of the same names, which are what the main
  block passes for them.

  The local variables of \<^verbatim>\<open>search\<close> that the loop changes. A dictionary is a map;
  \<^verbatim>\<open>prev\<close> and \<^verbatim>\<open>actions\<close> hold \<^verbatim>\<open>None\<close> for the start state, so their values are
  options.
\<close>

type_synonym plan = "(State \<times> string option) list"

record locals =
  queue :: "entry list"
  costs :: "State \<rightharpoonup> number"
  prev :: "State \<rightharpoonup> State option"
  actions :: "State \<rightharpoonup> string option"
  visited :: "State list"
  path :: plan

definition init :: "State \<Rightarrow> locals" where
  "init state =
     \<lparr>queue = [(Fin 0, state, None)],
      costs = [state \<mapsto> Fin 0],
      prev = [state \<mapsto> None],
      actions = [state \<mapsto> None],
      visited = [state],
      path = []\<rparr>"

text \<open>
  The body of the \<^verbatim>\<open>for\<close> loop, for one \<^verbatim>\<open>(node_action, node_state, node_cost)\<close>.
  An exception leaves \<^verbatim>\<open>search\<close> and its local variables with it, so the assignments
  made before a raise are not kept.
\<close>

definition relax ::
  "(State \<Rightarrow> number result) \<Rightarrow> number \<Rightarrow> State \<Rightarrow> locals \<Rightarrow> edge \<Rightarrow> locals result" where
  "relax heuristic_fn current_cost current_state l e =
     (case e of (node_action, node_state, node_cost) \<Rightarrow>
       (case num_add current_cost (Fin node_cost) of
          Raise x \<Rightarrow> Raise x
        | Return new_cost \<Rightarrow>
            if (case costs l node_state of None \<Rightarrow> True | Some c \<Rightarrow> num_less new_cost c)
               \<and> node_state \<notin> set (visited l)
            then
              (case heuristic_fn node_state of
                 Raise x \<Rightarrow> Raise x
               | Return h \<Rightarrow>
                   (case num_add new_cost h of
                      Raise x \<Rightarrow> Raise x
                    | Return priority \<Rightarrow>
                        Return (l\<lparr>costs := (costs l)(node_state \<mapsto> new_cost),
                                  actions := (actions l)(node_state \<mapsto> Some node_action),
                                  visited := visited l @ [node_state],
                                  queue := heappush (queue l) (priority, node_state, Some node_action),
                                  prev := (prev l)(node_state \<mapsto> Some current_state)\<rparr>)))
            else Return l))"

text \<open>The \<^verbatim>\<open>for\<close> loop over the edges that \<^verbatim>\<open>graph(current_state)\<close> yields.\<close>

fun relax_all ::
  "(State \<Rightarrow> number result) \<Rightarrow> number \<Rightarrow> State \<Rightarrow> locals \<Rightarrow> edge list \<Rightarrow> locals result" where
  "relax_all heuristic_fn current_cost current_state l [] = Return l"
| "relax_all heuristic_fn current_cost current_state l (e # es) =
     (case relax heuristic_fn current_cost current_state l e of
        Raise x \<Rightarrow> Raise x
      | Return l' \<Rightarrow> relax_all heuristic_fn current_cost current_state l' es)"

text \<open>
  The inner \<^verbatim>\<open>while current_back_node is not None\<close> loop. Nothing in the loop itself
  bounds it (it follows \<^verbatim>\<open>prev\<close> until it meets \<^verbatim>\<open>None\<close>), so it runs on fuel: \<open>None\<close>
  is a run that has not ended when the fuel is used up.
\<close>

fun backtrack ::
  "nat \<Rightarrow> (State \<rightharpoonup> State option) \<Rightarrow> (State \<rightharpoonup> string option) \<Rightarrow> State option \<Rightarrow> plan
     \<Rightarrow> plan result option" where
  "backtrack fuel prv acts None pth = Some (Return pth)"
| "backtrack 0 prv acts (Some node) pth = None"
| "backtrack (Suc fuel) prv acts (Some node) pth =
     (case acts node of
        None \<Rightarrow> Some (Raise (StateKeyError node))
      | Some a \<Rightarrow>
          (case prv node of
             None \<Rightarrow> Some (Raise (StateKeyError node))
           | Some back \<Rightarrow> backtrack fuel prv acts back ((node, a) # pth)))"

text \<open>
  The main loop. \<open>clock k\<close> is what \<^verbatim>\<open>time() - start_time\<close> gives at the \<open>k\<close>-th test of
  the loop condition, in ticks of the timer (\<^verbatim>\<open>default_timer\<close> is monotonic, so it is
  not negative), and \<open>limit\<close> is the budget in the same unit. The loop runs on fuel,
  one unit for each iteration: the clock alone decides when it stops, and a clock
  that never reaches the limit lets it run forever. What is left of the fuel when a
  goal state is popped is the fuel of the inner loop.
\<close>

fun search_loop ::
  "(nat \<Rightarrow> nat) \<Rightarrow> (State \<Rightarrow> expansion) \<Rightarrow> (State \<Rightarrow> bool result) \<Rightarrow> int
     \<Rightarrow> (State \<Rightarrow> number result) \<Rightarrow> nat \<Rightarrow> nat \<Rightarrow> locals \<Rightarrow> locals result option" where
  "search_loop clock graph_fn is_goal limit heuristic_fn 0 k l = None"
| "search_loop clock graph_fn is_goal limit heuristic_fn (Suc fuel) k l =
     (if int (clock k) < limit then
        (case heappop (queue l) of
           Raise x \<Rightarrow> Some (Raise x)
         | Return ((current_cost, current_state, current_action), rest) \<Rightarrow>
             (case is_goal current_state of
                Raise x \<Rightarrow> Some (Raise x)
              | Return True \<Rightarrow>
                  (case prev l current_state of
                     None \<Rightarrow> Some (Raise (StateKeyError current_state))
                   | Some current_back_node \<Rightarrow>
                       (case backtrack fuel (prev l) (actions l) current_back_node
                               (path l @ [(current_state, current_action)]) of
                          None \<Rightarrow> None
                        | Some (Raise x) \<Rightarrow> Some (Raise x)
                        | Some (Return p) \<Rightarrow> Some (Return (l\<lparr>queue := rest, path := p\<rparr>))))
              | Return False \<Rightarrow>
                  (case graph_fn current_state of
                     (edges, err) \<Rightarrow>
                       (case relax_all heuristic_fn current_cost current_state
                               (l\<lparr>queue := rest\<rparr>) edges of
                          Raise x \<Rightarrow> Some (Raise x)
                        | Return l' \<Rightarrow>
                            (case err of
                               Some x \<Rightarrow> Some (Raise x)
                             | None \<Rightarrow>
                                 search_loop clock graph_fn is_goal limit heuristic_fn fuel (Suc k) l')))))
      else Some (Return l))"

text \<open>
  \<open>search_run\<close> is \<^verbatim>\<open>search\<close> up to the end of its loop, with the local variables as
  the loop leaves them; \<open>search\<close> is what \<^verbatim>\<open>search\<close> returns: the path when it is not
  empty, \<^verbatim>\<open>None\<close> otherwise. The two \<^verbatim>\<open>print\<close> calls are left out.
\<close>

definition search_run ::
  "(nat \<Rightarrow> nat) \<Rightarrow> nat \<Rightarrow> (State \<Rightarrow> expansion) \<Rightarrow> State \<Rightarrow> (State \<Rightarrow> bool result) \<Rightarrow> int
     \<Rightarrow> (State \<Rightarrow> number result) \<Rightarrow> locals result option" where
  "search_run clock fuel graph_fn state is_goal limit heuristic_fn =
     search_loop clock graph_fn is_goal limit heuristic_fn fuel 0 (init state)"

definition search ::
  "(nat \<Rightarrow> nat) \<Rightarrow> nat \<Rightarrow> (State \<Rightarrow> expansion) \<Rightarrow> State \<Rightarrow> (State \<Rightarrow> bool result) \<Rightarrow> int
     \<Rightarrow> (State \<Rightarrow> number result) \<Rightarrow> plan option result option" where
  "search clock fuel graph_fn state is_goal limit heuristic_fn =
     (case search_run clock fuel graph_fn state is_goal limit heuristic_fn of
        None \<Rightarrow> None
      | Some (Raise x) \<Rightarrow> Some (Raise x)
      | Some (Return l) \<Rightarrow> Some (Return (if path l \<noteq> [] then Some (path l) else None)))"

subsection \<open>States as objects\<close>

text \<open>
  \<^verbatim>\<open>effect\<close> changes a state in place (\<^verbatim>\<open>next_state[item] += value\<close>), so which object it
  changes matters to its caller. Here is the same function over a store of objects: a
  list of the states there are, an object's address being its index. \<^verbatim>\<open>State.copy\<close>
  makes a new object at the end of the store; the two loops then change the object at
  that address. The address given for \<^verbatim>\<open>state\<close> is one of the store.
\<close>

type_synonym store = "State list"

definition copy_at :: "store \<Rightarrow> nat \<Rightarrow> store \<times> nat" where
  "copy_at objs a = (objs @ [update_from [] (objs ! a)], length objs)"

fun produce_at :: "store \<Rightarrow> nat \<Rightarrow> (item \<times> int) list \<Rightarrow> store result" where
  "produce_at objs n [] = Return objs"
| "produce_at objs n ((item, amount) # rest) =
     (case getitem (objs ! n) item of
        Raise e \<Rightarrow> Raise e
      | Return q \<Rightarrow> produce_at (objs[n := AList.update item (q + amount) (objs ! n)]) n rest)"

fun consume_at :: "store \<Rightarrow> nat \<Rightarrow> (item \<times> int) list \<Rightarrow> store result" where
  "consume_at objs n [] = Return objs"
| "consume_at objs n ((item, amount) # rest) =
     (case getitem (objs ! n) item of
        Raise e \<Rightarrow> Raise e
      | Return q \<Rightarrow> consume_at (objs[n := AList.update item (q - amount) (objs ! n)]) n rest)"

definition effect_at :: "rule \<Rightarrow> store \<Rightarrow> nat \<Rightarrow> (store \<times> nat) result" where
  "effect_at rule objs state =
     (case copy_at objs state of
        (objs1, next_state) \<Rightarrow>
          (case Produces rule of
             None \<Rightarrow> Raise (KeyError ''Produces'')
           | Some p \<Rightarrow>
               (case produce_at objs1 next_state p of
                  Raise e \<Rightarrow> Raise e
                | Return objs2 \<Rightarrow>
                    (case Consumes rule of
                       None \<Rightarrow> Return (objs2, next_state)
                     | Some c \<Rightarrow>
                         (case consume_at objs2 next_state c of
                            Raise e \<Rightarrow> Raise e
                          | Return objs3 \<Rightarrow> Return (objs3, next_state))))))"

subsection \<open>Reading a rule\<close>

text \<open>
  The items a rule consumes and requires, an absent clause being an empty one, and
  \<^verbatim>\<open>d.get(i, 0)\<close> for a dictionary of amounts.
\<close>

definition consumed :: "rule \<Rightarrow> (item \<times> int) list" where
  "consumed r = (case Consumes r of None \<Rightarrow> [] | Some c \<Rightarrow> c)"

definition required :: "rule \<Rightarrow> (item \<times> bool) list" where
  "required r = (case Requires r of None \<Rightarrow> [] | Some c \<Rightarrow> c)"

definition amount_of :: "(item \<times> int) list \<Rightarrow> item \<Rightarrow> int" where
  "amount_of d i = (case map_of d i of None \<Rightarrow> 0 | Some a \<Rightarrow> a)"

subsection \<open>Inputs of the examples\<close>

text \<open>
  A timer that advances by one tick between two tests of the loop condition, and one
  whose first reading is already five ticks.
\<close>

definition steady_clock :: "nat \<Rightarrow> nat" where
  "steady_clock k = k"

definition late_clock :: "nat \<Rightarrow> nat" where
  "late_clock k = 5 + k"

text \<open>The rule of the two-item example, and a bench that needs a plank and a tool.\<close>

definition craft_plank :: rule where
  "craft_plank =
     \<lparr>Requires = None, Consumes = Some [(''wood'', 1)], Produces = Some [(''plank'', 4)],
      Time = 1\<rparr>"

definition craft_stick :: rule where
  "craft_stick =
     \<lparr>Requires = Some [(''bench'', True)], Consumes = Some [(''plank'', 2)],
      Produces = Some [(''stick'', 4)], Time = 1\<rparr>"

text \<open>
  A rule without \<^verbatim>\<open>Consumes\<close> and \<^verbatim>\<open>Requires\<close>, and an inventory over the fifteen items
  the heuristic looks up, all at zero but the wood.
\<close>

definition punch_for_wood :: rule where
  "punch_for_wood = \<lparr>Requires = None, Consumes = None, Produces = Some [(''wood'', 1)], Time = 4\<rparr>"

definition tools_and_materials :: "int \<Rightarrow> State" where
  "tools_and_materials w =
     [(''bench'', 0), (''coal'', 0), (''cobble'', 0), (''furnace'', 0), (''ingot'', 0),
      (''iron_axe'', 0), (''iron_pickaxe'', 0), (''ore'', 0), (''plank'', 0), (''stick'', 0),
      (''stone_axe'', 0), (''stone_pickaxe'', 0), (''wood'', w), (''wooden_axe'', 0),
      (''wooden_pickaxe'', 0)]"

text \<open>
  The thirteen items the heuristic looks up besides wood and plank, and the local
  variables at the end of the search for three pieces of wood below.
\<close>

definition other_items :: State where
  "other_items =
     [(''bench'', 0), (''coal'', 0), (''cobble'', 0), (''furnace'', 0), (''ingot'', 0),
      (''iron_axe'', 0), (''iron_pickaxe'', 0), (''ore'', 0), (''stick'', 0),
      (''stone_axe'', 0), (''stone_pickaxe'', 0), (''wooden_axe'', 0), (''wooden_pickaxe'', 0)]"

definition punch_locals :: locals where
  "punch_locals =
      \<lparr>queue = [],
       costs = [tools_and_materials 1 \<mapsto> Fin 0, tools_and_materials 2 \<mapsto> Fin 4,
                tools_and_materials 3 \<mapsto> PInf],
       prev = [tools_and_materials 1 \<mapsto> None, tools_and_materials 2 \<mapsto> Some (tools_and_materials 1),
               tools_and_materials 3 \<mapsto> Some (tools_and_materials 2)],
       actions = [tools_and_materials 1 \<mapsto> None, tools_and_materials 2 \<mapsto> Some ''punch for wood'',
                  tools_and_materials 3 \<mapsto> Some ''punch for wood''],
       visited = [tools_and_materials 1, tools_and_materials 2, tools_and_materials 3],
       path = [(tools_and_materials 1, None), (tools_and_materials 2, Some ''punch for wood''),
               (tools_and_materials 3, Some ''punch for wood'')]\<rparr>"

subsection \<open>The states pushed on the frontier\<close>

text \<open>
  The only call of \<^verbatim>\<open>heappush\<close> is in the body of the \<^verbatim>\<open>for\<close> loop. \<open>relax_log\<close> is
  what one pass through that body pushes: the states of the entries it has added to the
  queue, none when it raises before it comes to \<^verbatim>\<open>heappush\<close>. \<open>relax_all_log\<close> collects
  them over the \<^verbatim>\<open>for\<close> loop and \<open>search_loop_log\<close> over the iterations of the main loop,
  whose tests and branches it follows, also in a run that ends with an exception.
  \<open>search_pushes\<close> is the list of all states put on the frontier in one call of
  \<^verbatim>\<open>search\<close>, in the order they were put there: the state of the entry the queue is set
  up with, then the states pushed by the loop.
\<close>

definition relax_log ::
  "(State \<Rightarrow> number result) \<Rightarrow> number \<Rightarrow> State \<Rightarrow> locals \<Rightarrow> edge \<Rightarrow> State list" where
  "relax_log heuristic_fn current_cost current_state l e =
     (case relax heuristic_fn current_cost current_state l e of
        Raise x \<Rightarrow> []
      | Return l' \<Rightarrow> map (fst \<circ> snd) (drop (length (queue l)) (queue l')))"

fun relax_all_log ::
  "(State \<Rightarrow> number result) \<Rightarrow> number \<Rightarrow> State \<Rightarrow> locals \<Rightarrow> edge list \<Rightarrow> State list" where
  "relax_all_log heuristic_fn current_cost current_state l [] = []"
| "relax_all_log heuristic_fn current_cost current_state l (e # es) =
     relax_log heuristic_fn current_cost current_state l e @
     (case relax heuristic_fn current_cost current_state l e of
        Raise x \<Rightarrow> []
      | Return l' \<Rightarrow> relax_all_log heuristic_fn current_cost current_state l' es)"

fun search_loop_log ::
  "(nat \<Rightarrow> nat) \<Rightarrow> (State \<Rightarrow> expansion) \<Rightarrow> (State \<Rightarrow> bool result) \<Rightarrow> int
     \<Rightarrow> (State \<Rightarrow> number result) \<Rightarrow> nat \<Rightarrow> nat \<Rightarrow> locals \<Rightarrow> State list option" where
  "search_loop_log clock graph_fn is_goal limit heuristic_fn 0 k l = None"
| "search_loop_log clock graph_fn is_goal limit heuristic_fn (Suc fuel) k l =
     (if int (clock k) < limit then
        (case heappop (queue l) of
           Raise x \<Rightarrow> Some []
         | Return ((current_cost, current_state, current_action), rest) \<Rightarrow>
             (case is_goal current_state of
                Raise x \<Rightarrow> Some []
              | Return True \<Rightarrow> Some []
              | Return False \<Rightarrow>
                  (case graph_fn current_state of
                     (edges, err) \<Rightarrow>
                       (case relax_all heuristic_fn current_cost current_state
                               (l\<lparr>queue := rest\<rparr>) edges of
                          Raise x \<Rightarrow>
                            Some (relax_all_log heuristic_fn current_cost current_state
                                    (l\<lparr>queue := rest\<rparr>) edges)
                        | Return l' \<Rightarrow>
                            (case err of
                               Some x \<Rightarrow>
                                 Some (relax_all_log heuristic_fn current_cost current_state
                                         (l\<lparr>queue := rest\<rparr>) edges)
                             | None \<Rightarrow>
                                 (case search_loop_log clock graph_fn is_goal limit heuristic_fn
                                         fuel (Suc k) l' of
                                    None \<Rightarrow> None
                                  | Some pushed \<Rightarrow>
                                      Some (relax_all_log heuristic_fn current_cost current_state
                                              (l\<lparr>queue := rest\<rparr>) edges @ pushed)))))))
      else Some [])"

definition search_pushes ::
  "(nat \<Rightarrow> nat) \<Rightarrow> nat \<Rightarrow> (State \<Rightarrow> expansion) \<Rightarrow> State \<Rightarrow> (State \<Rightarrow> bool result) \<Rightarrow> int
     \<Rightarrow> (State \<Rightarrow> number result) \<Rightarrow> State list option" where
  "search_pushes clock fuel graph_fn state is_goal limit heuristic_fn =
     (case search_loop_log clock graph_fn is_goal limit heuristic_fn fuel 0 (init state) of
        None \<Rightarrow> None
      | Some pushed \<Rightarrow> Some (map (fst \<circ> snd) (queue (init state)) @ pushed))"

subsection \<open>The invariant of the frontier\<close>

text \<open>
  The visited list has no state twice, the frontier has no two entries with the same
  state, and the state of every entry of the frontier is in the visited list.
\<close>

definition frontier_inv :: "locals \<Rightarrow> bool" where
  "frontier_inv l =
     (distinct (visited l) \<and> distinct (map (fst \<circ> snd) (queue l)) \<and>
      (fst \<circ> snd) ` set (queue l) \<subseteq> set (visited l))"

section \<open>Properties\<close>

subsection \<open>States\<close>

text \<open>A key that is not in a dictionary goes to its end when it is stored.\<close>

lemma update_absent: "k \<notin> fst ` set al \<Longrightarrow> AList.update k v al = al @ [(k, v)]"
  by (induction al) auto

text \<open>Copying a state whose keys are distinct, as those of a dictionary are, gives an equal state.\<close>

lemma update_from_distinct:
  "distinct (map fst (acc @ s)) \<Longrightarrow> update_from acc s = acc @ s"
proof (induction s arbitrary: acc)
  case Nil
  then show ?case by (simp add: update_from_def)
next
  case (Cons x s)
  obtain k v where x: "x = (k, v)" by (cases x)
  from Cons.prems have "k \<notin> fst ` set acc" by (auto simp: x)
  then have u: "AList.update k v acc = acc @ [(k, v)]" by (rule update_absent)
  from Cons.prems have "distinct (map fst ((acc @ [(k, v)]) @ s))" by (simp add: x)
  then have "update_from (acc @ [(k, v)]) s = (acc @ [(k, v)]) @ s" by (rule Cons.IH)
  then show ?case by (simp add: update_from_def x u)
qed

lemma copy_distinct: "distinct (map fst s) \<Longrightarrow> copy s = s"
  using update_from_distinct [of "[]" s] by (simp add: copy_def)

lemma getitem_present:
  "item \<in> fst ` set state \<Longrightarrow> \<exists>q. map_of state item = Some q \<and> getitem state item = Return q"
  by (cases "map_of state item") (auto simp: getitem_def map_of_eq_None_iff)

subsection \<open>The effect of a recipe\<close>

lemma produce_covered:
  "distinct (map fst p) \<Longrightarrow> fst ` set p \<subseteq> fst ` set s \<Longrightarrow>
   \<exists>s'. produce s p = Return s' \<and> map fst s' = map fst s \<and>
     (\<forall>i. map_of s' i = map_option (\<lambda>q. q + amount_of p i) (map_of s i))"
proof (induction p arbitrary: s)
  case Nil
  then show ?case by (simp add: amount_of_def option.map_ident)
next
  case (Cons x p)
  obtain k a where x: "x = (k, a)" by (cases x)
  with Cons.prems obtain q where q: "map_of s k = Some q" "getitem s k = Return q"
    using getitem_present [of k s] by auto
  let ?s1 = "AList.update k (q + a) s"
  from Cons.prems x have kin: "k \<in> fst ` set s" by simp
  then have keys: "map fst ?s1 = map fst s" by (simp add: update_keys)
  then have "fst ` set ?s1 = fst ` set s" by (metis list.set_map)
  with Cons.prems have "fst ` set p \<subseteq> fst ` set ?s1" by simp
  moreover from Cons.prems have "distinct (map fst p)" by simp
  ultimately obtain s' where s': "produce ?s1 p = Return s'" "map fst s' = map fst ?s1"
    "\<forall>i. map_of s' i = map_option (\<lambda>q. q + amount_of p i) (map_of ?s1 i)"
    using Cons.IH [of ?s1] by blast
  from Cons.prems x have knp: "map_of p k = None" by (simp add: map_of_eq_None_iff)
  have "map_of s' i = map_option (\<lambda>q. q + amount_of (x # p) i) (map_of s i)" for i
    using s'(3) q(1) knp by (auto simp: x amount_of_def update_conv')
  with s' keys q x show ?case by simp
qed

lemma consume_covered:
  "distinct (map fst c) \<Longrightarrow> fst ` set c \<subseteq> fst ` set s \<Longrightarrow>
   \<exists>s'. consume s c = Return s' \<and> map fst s' = map fst s \<and>
     (\<forall>i. map_of s' i = map_option (\<lambda>q. q - amount_of c i) (map_of s i))"
proof (induction c arbitrary: s)
  case Nil
  then show ?case by (simp add: amount_of_def option.map_ident)
next
  case (Cons x c)
  obtain k a where x: "x = (k, a)" by (cases x)
  with Cons.prems obtain q where q: "map_of s k = Some q" "getitem s k = Return q"
    using getitem_present [of k s] by auto
  let ?s1 = "AList.update k (q - a) s"
  from Cons.prems x have kin: "k \<in> fst ` set s" by simp
  then have keys: "map fst ?s1 = map fst s" by (simp add: update_keys)
  then have "fst ` set ?s1 = fst ` set s" by (metis list.set_map)
  with Cons.prems have "fst ` set c \<subseteq> fst ` set ?s1" by simp
  moreover from Cons.prems have "distinct (map fst c)" by simp
  ultimately obtain s' where s': "consume ?s1 c = Return s'" "map fst s' = map fst ?s1"
    "\<forall>i. map_of s' i = map_option (\<lambda>q. q - amount_of c i) (map_of ?s1 i)"
    using Cons.IH [of ?s1] by blast
  from Cons.prems x have knp: "map_of c k = None" by (simp add: map_of_eq_None_iff)
  have "map_of s' i = map_option (\<lambda>q. q - amount_of (x # c) i) (map_of s i)" for i
    using s'(3) q(1) knp by (auto simp: x amount_of_def update_conv')
  with s' keys q x show ?case by simp
qed

lemma make_effector_covered:
  assumes P: "Produces r = Some P"
    and dP: "distinct (map fst P)" and dC: "distinct (map fst (consumed r))"
    and dS: "distinct (map fst S)"
    and sP: "fst ` set P \<subseteq> fst ` set S" and sC: "fst ` set (consumed r) \<subseteq> fst ` set S"
  shows "\<exists>S'. make_effector r S = Return S' \<and> map fst S' = map fst S \<and>
     (\<forall>i q. map_of S i = Some q \<longrightarrow>
        map_of S' i = Some (q + amount_of P i - amount_of (consumed r) i))"
proof -
  from dS have cp: "copy S = S" by (rule copy_distinct)
  from produce_covered [OF dP sP] obtain S1 where S1: "produce S P = Return S1"
    "map fst S1 = map fst S" "\<forall>i. map_of S1 i = map_option (\<lambda>q. q + amount_of P i) (map_of S i)"
    by blast
  from S1(2) have "fst ` set S1 = fst ` set S" by (metis list.set_map)
  with sC have "fst ` set (consumed r) \<subseteq> fst ` set S1" by simp
  from consume_covered [OF dC this] obtain S2 where S2: "consume S1 (consumed r) = Return S2"
    "map fst S2 = map fst S1"
    "\<forall>i. map_of S2 i = map_option (\<lambda>q. q - amount_of (consumed r) i) (map_of S1 i)"
    by blast
  have eff: "make_effector r S = Return S2"
    using P cp S1(1) S2(1) by (simp add: make_effector_def consumed_def split: option.splits)
  have "map_of S2 i = Some (q + amount_of P i - amount_of (consumed r) i)"
    if "map_of S i = Some q" for i q
    using that S1(3) S2(3) by simp
  with eff S1(2) S2(2) show ?thesis by simp
qed

text \<open>
  In the store, the two loops change the new object only, and what they leave in it is
  what the functions on values compute.
\<close>

lemma produce_at_new:
  "produce_at (objs @ [s]) (length objs) p =
     (case produce s p of Raise e \<Rightarrow> Raise e | Return s' \<Rightarrow> Return (objs @ [s']))"
  by (induction s p rule: produce.induct) (simp_all split: result.splits)

lemma consume_at_new:
  "consume_at (objs @ [s]) (length objs) c =
     (case consume s c of Raise e \<Rightarrow> Raise e | Return s' \<Rightarrow> Return (objs @ [s']))"
  by (induction s c rule: consume.induct) (simp_all split: result.splits)

lemma effect_at_make_effector:
  "effect_at rule objs a =
     (case make_effector rule (objs ! a) of
        Raise e \<Rightarrow> Raise e
      | Return s' \<Rightarrow> Return (objs @ [s'], length objs))"
  by (simp add: effect_at_def copy_at_def make_effector_def copy_def produce_at_new consume_at_new
      split: option.splits result.splits)

text \<open>
  Claim C4. Let a recipe have the products \<open>P\<close> and consume \<open>consumed r\<close> (nothing when
  the rule has no \<^verbatim>\<open>Consumes\<close>), all of them items of the state at address \<open>a\<close>, which
  has distinct keys as every dictionary has. Then \<^verbatim>\<open>effect\<close> returns a new object, at
  the end of the store, and leaves every object there was as it is, the state it was
  given among them; the new state has the keys of the given one in the same order, and
  the quantity of each item \<open>i\<close> is the given one plus \<open>P.get(i, 0)\<close> minus
  \<open>C.get(i, 0)\<close>. This holds whether or not the precondition of the recipe holds.
\<close>

theorem effect_quantities:
  assumes "a < length objs"
    and "Produces r = Some P"
    and "distinct (map fst P)" and "distinct (map fst (consumed r))"
    and "distinct (map fst (objs ! a))"
    and "fst ` set P \<subseteq> fst ` set (objs ! a)"
    and "fst ` set (consumed r) \<subseteq> fst ` set (objs ! a)"
  shows "\<exists>S'. effect_at r objs a = Return (objs @ [S'], length objs) \<and>
     make_effector r (objs ! a) = Return S' \<and>
     map fst S' = map fst (objs ! a) \<and>
     (\<forall>i q. map_of (objs ! a) i = Some q \<longrightarrow>
        map_of S' i = Some (q + amount_of P i - amount_of (consumed r) i))"
proof -
  from make_effector_covered [OF assms(2-7)] obtain S' where S':
    "make_effector r (objs ! a) = Return S'" "map fst S' = map fst (objs ! a)"
    "\<forall>i q. map_of (objs ! a) i = Some q \<longrightarrow>
        map_of S' i = Some (q + amount_of P i - amount_of (consumed r) i)"
    by blast
  from S'(1) have "effect_at r objs a = Return (objs @ [S'], length objs)"
    by (simp add: effect_at_make_effector)
  with S' show ?thesis by blast
qed

theorem effect_quantities_witness:
  "\<exists>S'. effect_at craft_plank [[(''wood'', 1), (''plank'', 0)]] 0 =
          Return ([[(''wood'', 1), (''plank'', 0)], S'], 1) \<and>
        map fst S' = [''wood'', ''plank''] \<and>
        map_of S' ''wood'' = Some 0 \<and> map_of S' ''plank'' = Some 4"
proof -
  let ?objs = "[[(''wood'', 1), (''plank'', 0 :: int)]]"
  have "\<exists>S'. effect_at craft_plank ?objs 0 = Return (?objs @ [S'], length ?objs) \<and>
     make_effector craft_plank (?objs ! 0) = Return S' \<and>
     map fst S' = map fst (?objs ! 0) \<and>
     (\<forall>i q. map_of (?objs ! 0) i = Some q \<longrightarrow>
        map_of S' i = Some (q + amount_of [(''plank'', 4)] i - amount_of (consumed craft_plank) i))"
    by (rule effect_quantities) (simp_all add: craft_plank_def consumed_def)
  then obtain S' where e: "effect_at craft_plank ?objs 0 = Return (?objs @ [S'], length ?objs)"
    and k: "map fst S' = map fst (?objs ! 0)"
    and q: "\<forall>i q. map_of (?objs ! 0) i = Some q \<longrightarrow>
        map_of S' i = Some (q + amount_of [(''plank'', 4)] i - amount_of (consumed craft_plank) i)"
    by blast
  from q have "map_of S' ''wood'' = Some 0" "map_of S' ''plank'' = Some 4"
    by (simp_all add: amount_of_def consumed_def craft_plank_def)
  with e k show ?thesis by simp
qed

subsection \<open>The precondition of a recipe\<close>

lemma check_consumes_covered:
  "fst ` set c \<subseteq> fst ` set state \<Longrightarrow>
   check_consumes state c = Return (\<forall>(i, a)\<in>set c. \<exists>q. map_of state i = Some q \<and> a \<le> q)"
proof (induction c)
  case Nil
  then show ?case by simp
next
  case (Cons x c)
  obtain i a where x: "x = (i, a)" by (cases x)
  with Cons.prems obtain q where q: "map_of state i = Some q" "getitem state i = Return q"
    using getitem_present [of i state] by auto
  from Cons have "check_consumes state c = Return (\<forall>(i, a)\<in>set c. \<exists>q. map_of state i = Some q \<and> a \<le> q)"
    by simp
  with q x show ?case by auto
qed

lemma check_requires_covered:
  "fst ` set r \<subseteq> fst ` set state \<Longrightarrow>
   check_requires state r = Return (\<forall>(i, f)\<in>set r. \<exists>q. map_of state i = Some q \<and> q \<noteq> 0)"
proof (induction r)
  case Nil
  then show ?case by simp
next
  case (Cons x r)
  obtain i f where x: "x = (i, f)" by (cases x)
  with Cons.prems obtain q where q: "map_of state i = Some q" "getitem state i = Return q"
    using getitem_present [of i state] by auto
  from Cons have "check_requires state r = Return (\<forall>(i, f)\<in>set r. \<exists>q. map_of state i = Some q \<and> q \<noteq> 0)"
    by simp
  with q x show ?case by auto
qed

lemma make_checker_covered:
  assumes sC: "fst ` set (consumed r) \<subseteq> fst ` set S"
    and sR: "fst ` set (required r) \<subseteq> fst ` set S"
    and nn: "\<forall>(i, q)\<in>set S. 0 \<le> q"
  shows "make_checker r S =
     Return ((\<forall>(i, a)\<in>set (consumed r). \<exists>q. map_of S i = Some q \<and> a \<le> q) \<and>
             (\<forall>(i, f)\<in>set (required r). \<exists>q. map_of S i = Some q \<and> 0 < q))"
proof -
  define A where "A = (\<forall>(i, a)\<in>set (consumed r). \<exists>q. map_of S i = Some q \<and> a \<le> q)"
  define B where "B = (\<forall>(i, f)\<in>set (required r). \<exists>q. map_of S i = Some q \<and> 0 < q)"
  have pos: "(q \<noteq> 0) = (0 < q)" if "map_of S i = Some q" for i q
  proof -
    from that have "(i, q) \<in> set S" by (rule map_of_SomeD)
    with nn have "0 \<le> q" by auto
    then show ?thesis by auto
  qed
  have "(\<exists>q. map_of S i = Some q \<and> q \<noteq> 0) = (\<exists>q. map_of S i = Some q \<and> 0 < q)" for i
    using pos [of i] by blast
  then have R: "check_requires S (required r) = Return B"
    unfolding B_def check_requires_covered [OF sR] by simp
  have C: "check_consumes S (consumed r) = Return A"
    unfolding A_def by (rule check_consumes_covered [OF sC])
  have c: "(case Consumes r of None \<Rightarrow> Return True | Some c \<Rightarrow> check_consumes S c) = Return A"
    using C by (simp add: consumed_def split: option.splits)
  have rq: "(case Requires r of None \<Rightarrow> Return True | Some x \<Rightarrow> check_requires S x) = Return B"
    using R by (simp add: required_def split: option.splits)
  have "make_checker r S = Return (A \<and> B)"
    by (simp add: make_checker_def c rq split: bool.splits)
  then show ?thesis unfolding A_def B_def .
qed

text \<open>
  Claim C5. For a state that has every item the rule consumes or requires, with
  quantities that are not negative, the compiled precondition returns whether the state
  has at least the amount of every consumed item and more than zero of every required
  item; a rule without \<^verbatim>\<open>Consumes\<close> or \<^verbatim>\<open>Requires\<close> has nothing to check there.
\<close>

theorem precondition_value:
  assumes "fst ` set (consumed r) \<subseteq> fst ` set S"
    and "fst ` set (required r) \<subseteq> fst ` set S"
    and "\<forall>(i, q)\<in>set S. 0 \<le> q"
  shows "make_checker r S =
     Return ((\<forall>(i, a)\<in>set (consumed r). \<exists>q. map_of S i = Some q \<and> a \<le> q) \<and>
             (\<forall>(i, f)\<in>set (required r). \<exists>q. map_of S i = Some q \<and> 0 < q))"
  using assms by (rule make_checker_covered)

theorem precondition_value_witness:
  "make_checker craft_stick [(''bench'', 1), (''plank'', 2), (''stick'', 0)] = Return True \<and>
   make_checker craft_stick [(''bench'', 0), (''plank'', 2), (''stick'', 0)] = Return False \<and>
   make_checker craft_stick [(''bench'', 1), (''plank'', 1), (''stick'', 0)] = Return False"
  using precondition_value [of craft_stick "[(''bench'', 1), (''plank'', 2), (''stick'', 0)]"]
    precondition_value [of craft_stick "[(''bench'', 0), (''plank'', 2), (''stick'', 0)]"]
    precondition_value [of craft_stick "[(''bench'', 1), (''plank'', 1), (''stick'', 0)]"]
  by (simp add: craft_stick_def consumed_def required_def)

subsection \<open>Expansion\<close>

lemma graph_edges:
  assumes "\<forall>r\<in>set rs. \<exists>b. check r s = Return b"
    and "\<forall>r\<in>set rs. check r s = Return True \<longrightarrow> (\<exists>s'. effect r s = Return s')"
  shows "\<exists>edges. graph rs s = (edges, None) \<and>
     list_all2 (\<lambda>r (a, s', c). a = name r \<and> effect r s = Return s' \<and> c = cost r)
       (filter (\<lambda>r. check r s = Return True) rs) edges \<and>
     length edges \<le> length rs"
  using assms
proof (induction rs)
  case Nil
  then show ?case by simp
next
  case (Cons r rs)
  then obtain edges where e: "graph rs s = (edges, None)"
    "list_all2 (\<lambda>r (a, s', c). a = name r \<and> effect r s = Return s' \<and> c = cost r)
       (filter (\<lambda>r. check r s = Return True) rs) edges" "length edges \<le> length rs"
    by auto
  from Cons.prems obtain b where b: "check r s = Return b" by auto
  show ?case
  proof (cases b)
    case True
    with b Cons.prems obtain s' where "effect r s = Return s'" by auto
    with True b e show ?thesis by simp
  next
    case False
    with b e show ?thesis by simp
  qed
qed

text \<open>
  Claim C6. When no precondition raises on the state and the effect of every recipe
  whose precondition holds returns a state, \<^verbatim>\<open>graph\<close> yields, for the recipes whose
  precondition holds and in their order in \<^verbatim>\<open>all_recipes\<close>, one edge each: the name of
  the recipe, its effect on the state and its cost; it raises nothing and yields at most
  as many edges as there are recipes. \<open>graph\<close> is a function of the recipes and the
  state, so two calls on the same state yield the same edges.
\<close>

theorem expansion_edges:
  assumes "\<forall>r\<in>set rs. \<exists>b. check r s = Return b"
    and "\<forall>r\<in>set rs. check r s = Return True \<longrightarrow> (\<exists>s'. effect r s = Return s')"
  shows "\<exists>edges. graph rs s = (edges, None) \<and>
     list_all2 (\<lambda>r (a, s', c). a = name r \<and> effect r s = Return s' \<and> c = cost r)
       (filter (\<lambda>r. check r s = Return True) rs) edges \<and>
     length edges \<le> length rs"
  using assms by (rule graph_edges)

theorem expansion_edges_witness:
  "\<exists>edges. graph [make_recipe ''craft_stick'' craft_stick, make_recipe ''craft_plank'' craft_plank]
       [(''bench'', 0), (''plank'', 2), (''stick'', 0), (''wood'', 1)] = (edges, None) \<and>
     list_all2 (\<lambda>r (a, s', c). a = name r \<and>
         effect r [(''bench'', 0), (''plank'', 2), (''stick'', 0), (''wood'', 1)] = Return s' \<and> c = cost r)
       [make_recipe ''craft_plank'' craft_plank] edges \<and>
     length edges \<le> 2"
proof -
  let ?s = "[(''bench'', 0), (''plank'', 2), (''stick'', 0), (''wood'', 1 :: int)]"
  let ?rs = "[make_recipe ''craft_stick'' craft_stick, make_recipe ''craft_plank'' craft_plank]"
  have c1: "check (make_recipe ''craft_stick'' craft_stick) ?s = Return False"
    by (simp add: make_recipe_def craft_stick_def make_checker_def getitem_def)
  have c2: "check (make_recipe ''craft_plank'' craft_plank) ?s = Return True"
    by (simp add: make_recipe_def craft_plank_def make_checker_def getitem_def)
  have e2: "effect (make_recipe ''craft_plank'' craft_plank) ?s =
      Return [(''bench'', 0), (''plank'', 6), (''stick'', 0), (''wood'', 0)]"
    by (simp add: make_recipe_def craft_plank_def make_effector_def getitem_def copy_def
        update_from_def)
  have "\<exists>edges. graph ?rs ?s = (edges, None) \<and>
     list_all2 (\<lambda>r (a, s', c). a = name r \<and> effect r ?s = Return s' \<and> c = cost r)
       (filter (\<lambda>r. check r ?s = Return True) ?rs) edges \<and>
     length edges \<le> length ?rs"
    by (rule expansion_edges) (auto simp: c1 c2 e2)
  then show ?thesis by (simp add: c1 c2 numeral_2_eq_2 del: graph.simps)
qed

subsection \<open>Heuristic\<close>

lemma tools_loop_covered:
  "set ts \<subseteq> fst ` set state \<Longrightarrow>
   tools_loop state ts = Return (\<exists>t\<in>set ts. \<exists>q. map_of state t = Some q \<and> 1 < q)"
proof (induction ts)
  case Nil
  then show ?case by simp
next
  case (Cons t ts)
  then obtain q where q: "map_of state t = Some q" "getitem state t = Return q"
    using getitem_present [of t state] by auto
  from Cons have "tools_loop state ts = Return (\<exists>t\<in>set ts. \<exists>q. map_of state t = Some q \<and> 1 < q)"
    by simp
  with q show ?case by auto
qed

lemma materials_loop_covered:
  "fst ` set ms \<subseteq> fst ` set state \<Longrightarrow>
   materials_loop state ms = Return (\<exists>(m, cap)\<in>set ms. \<exists>q. map_of state m = Some q \<and> cap < q)"
proof (induction ms)
  case Nil
  then show ?case by simp
next
  case (Cons x ms)
  obtain m cap where x: "x = (m, cap)" by (cases x)
  with Cons.prems obtain q where q: "map_of state m = Some q" "getitem state m = Return q"
    using getitem_present [of m state] by auto
  from Cons have "materials_loop state ms = Return (\<exists>(m, cap)\<in>set ms. \<exists>q. map_of state m = Some q \<and> cap < q)"
    by simp
  with q x show ?case by auto
qed

lemma heuristic_covered:
  assumes "set tools \<union> fst ` set materials_with_heuristic_value \<subseteq> fst ` set state"
  shows "heuristic state =
     Return (if (\<exists>t\<in>set tools. \<exists>q. map_of state t = Some q \<and> 1 < q) \<or>
                (\<exists>(m, cap)\<in>set materials_with_heuristic_value.
                    \<exists>q. map_of state m = Some q \<and> cap < q)
             then PInf else Fin 0)"
proof -
  from assms have t: "set tools \<subseteq> fst ` set state"
    and m: "fst ` set materials_with_heuristic_value \<subseteq> fst ` set state" by auto
  show ?thesis
    unfolding heuristic_def tools_loop_covered [OF t] materials_loop_covered [OF m]
    by (simp split: bool.splits)
qed

text \<open>
  Claim C7. On a state that has the fifteen item names the heuristic looks up, it
  returns infinity when one of the eight tools has a quantity above 1 or one of the seven
  materials a quantity above its cap (coal 1, cobble 8, wood 1, plank 8, stick 4, ore 1,
  ingot 6), and zero otherwise.
\<close>

theorem heuristic_value:
  assumes "{''furnace'', ''bench'', ''wooden_pickaxe'', ''wooden_axe'', ''stone_pickaxe'',
            ''stone_axe'', ''iron_pickaxe'', ''iron_axe'', ''coal'', ''cobble'', ''wood'',
            ''plank'', ''stick'', ''ore'', ''ingot''} \<subseteq> fst ` set state"
  shows "heuristic state =
     Return (if (\<exists>t\<in>{''furnace'', ''bench'', ''wooden_pickaxe'', ''wooden_axe'',
                     ''stone_pickaxe'', ''stone_axe'', ''iron_pickaxe'', ''iron_axe''}.
                   \<exists>q. map_of state t = Some q \<and> 1 < q) \<or>
                (\<exists>(m, cap)\<in>{(''coal'', 1), (''cobble'', 8), (''wood'', 1), (''plank'', 8),
                     (''stick'', 4), (''ore'', 1), (''ingot'', 6)}.
                   \<exists>q. map_of state m = Some q \<and> cap < q)
             then PInf else Fin 0)"
proof -
  have t: "set tools = {''furnace'', ''bench'', ''wooden_pickaxe'', ''wooden_axe'',
                     ''stone_pickaxe'', ''stone_axe'', ''iron_pickaxe'', ''iron_axe''}"
    by (simp add: tools_def)
  have m: "set materials_with_heuristic_value = {(''coal'', 1), (''cobble'', 8), (''wood'', 1), (''plank'', 8),
                     (''stick'', 4), (''ore'', 1), (''ingot'', 6)}"
    by (simp add: materials_with_heuristic_value_def)
  have "set tools \<union> fst ` set materials_with_heuristic_value \<subseteq> fst ` set state"
    using assms unfolding t m by simp
  from heuristic_covered [OF this] show ?thesis unfolding t m .
qed

theorem heuristic_value_witness:
  "heuristic (tools_and_materials 2) = Return PInf \<and> heuristic (tools_and_materials 1) = Return (Fin 0)"
  using heuristic_value [of "tools_and_materials 2"] heuristic_value [of "tools_and_materials 1"]
  by (simp add: tools_and_materials_def)

subsection \<open>Search: the first test of the loop condition\<close>

lemma heappop_single: "heappop [e] = Return (e, [])"
  by (simp add: heappop_def)

lemma search_loop_expired:
  "\<not> int (clock k) < limit \<Longrightarrow>
   search_loop clock graph_fn is_goal limit heuristic_fn (Suc fuel) k l = Some (Return l)"
  by simp

lemma search_run_no_budget:
  "limit \<le> 0 \<Longrightarrow>
   search_run clock (Suc fuel) graph_fn state is_goal limit heuristic_fn = Some (Return (init state))"
  by (simp add: search_run_def)

lemma search_run_goal_at_start:
  assumes "is_goal state = Return True" and "int (clock 0) < limit"
  shows "search_run clock (Suc fuel) graph_fn state is_goal limit heuristic_fn =
     Some (Return ((init state)\<lparr>queue := [], path := [(state, None)]\<rparr>))"
  using assms by (simp add: search_run_def init_def heappop_single)

text \<open>
  Claim C9. With a budget of zero or less, \<^verbatim>\<open>search\<close> returns \<^verbatim>\<open>None\<close> at the first test
  of the loop condition, whatever the expansion, the goal checker and the heuristic are:
  it raises nothing, and its local variables are as they were set up, the start entry
  still in the frontier.
\<close>

theorem search_no_budget:
  assumes "limit \<le> 0"
  shows "search clock (Suc fuel) graph_fn state is_goal limit heuristic_fn = Some (Return None) \<and>
    search_run clock (Suc fuel) graph_fn state is_goal limit heuristic_fn =
      Some (Return (init state))"
  using search_run_no_budget [OF assms] by (simp add: search_def init_def)

theorem search_no_budget_witness:
  "search steady_clock (Suc 0) (graph []) [(''wood'', 0)] (make_goal_checker [(''wood'', 1)]) 0
     heuristic = Some (Return None) \<and>
   search_run steady_clock (Suc 0) (graph []) [(''wood'', 0)] (make_goal_checker [(''wood'', 1)]) 0
     heuristic = Some (Return (init [(''wood'', 0)]))"
  using search_no_budget [of 0 steady_clock 0 "graph []" "[(''wood'', 0)]"
      "make_goal_checker [(''wood'', 1)]" heuristic]
  by simp

text \<open>
  Claim C10, as amended. When the goal checker holds for the start state and the first
  test of the loop condition finds the elapsed time below the budget, \<^verbatim>\<open>search\<close> returns
  the plan \<^verbatim>\<open>[(state, None)]\<close>, whatever the expansion and the heuristic are: the start
  entry is popped, nothing is added to the frontier and the costs, and the heuristic is
  not called.
\<close>

theorem search_goal_at_start:
  assumes "is_goal state = Return True" and "int (clock 0) < limit"
  shows "search clock (Suc fuel) graph_fn state is_goal limit heuristic_fn =
      Some (Return (Some [(state, None)])) \<and>
    search_run clock (Suc fuel) graph_fn state is_goal limit heuristic_fn =
      Some (Return ((init state)\<lparr>queue := [], path := [(state, None)]\<rparr>))"
  using assms search_run_goal_at_start [of is_goal state clock limit fuel graph_fn heuristic_fn]
  by (simp add: search_def)

theorem search_goal_at_start_witness:
  "search steady_clock (Suc 0) (graph []) [(''wood'', 1)] (make_goal_checker [(''wood'', 1)]) 30
     heuristic = Some (Return (Some [([(''wood'', 1)], None)]))"
  using search_goal_at_start [of "make_goal_checker [(''wood'', 1)]" "[(''wood'', 1)]" steady_clock 30
      0 "graph []" heuristic]
  by (simp add: steady_clock_def getitem_def)

text \<open>
  A budget above zero is not enough for that: with a budget of 3 ticks and a timer that
  reads 5 at the first test, the loop body never runs and \<^verbatim>\<open>search\<close> returns \<^verbatim>\<open>None\<close>
  although the goal checker holds for the start state.
\<close>

theorem search_goal_at_start_late:
  "make_goal_checker [(''wood'', 1)] [(''wood'', 1)] = Return True \<and> (0 :: int) < 3 \<and>
   search late_clock (Suc 0) (graph []) [(''wood'', 1)] (make_goal_checker [(''wood'', 1)]) 3
     heuristic = Some (Return None)"
  by (simp add: search_def search_run_def init_def late_clock_def getitem_def)

subsection \<open>Search: the two-item example\<close>

lemma num_add_one: "num_add (Fin 1) v = Return (case v of Fin n \<Rightarrow> Fin (1 + n) | PInf \<Rightarrow> PInf)"
  by (cases v) (simp_all add: float_limit_def)

lemma craft_plank_expansion:
  assumes d: "distinct (map fst ((''wood'', 1) # (''plank'', 0) # extra))"
  shows "graph [make_recipe ''craft_plank'' craft_plank] ((''wood'', 1) # (''plank'', 0) # extra) =
     ([(''craft_plank'', (''wood'', 0) # (''plank'', 4) # extra, 1)], None)"
proof -
  have "copy ((''wood'', 1) # (''plank'', 0) # extra) = (''wood'', 1) # (''plank'', 0) # extra"
    using d by (rule copy_distinct)
  then show ?thesis
    by (simp add: make_recipe_def craft_plank_def make_checker_def make_effector_def getitem_def)
qed

lemma getitem_Some: "map_of state item = Some q \<Longrightarrow> getitem state item = Return q"
  by (simp add: getitem_def)

lemma craft_plank_expansion_any:
  assumes d: "distinct (map fst S)"
    and w: "map_of S ''wood'' = Some 1" and p: "map_of S ''plank'' = Some 0"
  shows "graph [make_recipe ''craft_plank'' craft_plank] S =
     ([(''craft_plank'', AList.update ''wood'' 0 (AList.update ''plank'' 4 S), 1)], None)"
proof -
  have c: "copy S = S" using d by (rule copy_distinct)
  have w': "getitem (AList.update ''plank'' 4 S) ''wood'' = Return 1"
    using w by (simp add: getitem_def update_conv')
  show ?thesis
    by (simp add: make_recipe_def craft_plank_def make_checker_def make_effector_def c
        getitem_Some [OF w] getitem_Some [OF p] w')
qed

lemma plank_goal_start:
  "map_of S ''plank'' = Some 0 \<Longrightarrow> make_goal_checker [(''plank'', 4)] S = Return False"
  by (simp add: getitem_def)

lemma plank_goal_reached:
  "make_goal_checker [(''plank'', 4)] (AList.update ''wood'' 0 (AList.update ''plank'' 4 S)) =
     Return True"
  by (simp add: getitem_def update_conv')

lemma plank_state_new:
  "map_of (S :: State) ''plank'' = Some 0 \<Longrightarrow>
   AList.update ''wood'' 0 (AList.update ''plank'' 4 S) \<noteq> S"
proof
  assume p: "map_of S ''plank'' = Some 0"
    and e: "AList.update ''wood'' 0 (AList.update ''plank'' 4 S) = S"
  have "map_of (AList.update ''wood'' 0 (AList.update ''plank'' 4 S)) ''plank'' = Some 4"
    by (simp add: update_conv')
  with e p show False by simp
qed

lemma craft_plank_run_any:
  assumes d: "distinct (map fst S)"
    and w: "map_of S ''wood'' = Some 1" and p: "map_of S ''plank'' = Some 0"
    and h: "heuristic_fn (AList.update ''wood'' 0 (AList.update ''plank'' 4 S)) = Return v"
    and c0: "int (clock 0) < limit" and c1: "int (clock 1) < limit"
  shows "search_run clock (Suc (Suc (Suc fuel))) (graph [make_recipe ''craft_plank'' craft_plank])
      S (make_goal_checker [(''plank'', 4)]) limit heuristic_fn =
    Some (Return
      \<lparr>queue = [],
       costs = [S \<mapsto> Fin 0, AList.update ''wood'' 0 (AList.update ''plank'' 4 S) \<mapsto> Fin 1],
       prev = [S \<mapsto> None, AList.update ''wood'' 0 (AList.update ''plank'' 4 S) \<mapsto> Some S],
       actions = [S \<mapsto> None,
                  AList.update ''wood'' 0 (AList.update ''plank'' 4 S) \<mapsto> Some ''craft_plank''],
       visited = [S, AList.update ''wood'' 0 (AList.update ''plank'' 4 S)],
       path = [(S, None),
               (AList.update ''wood'' 0 (AList.update ''plank'' 4 S), Some ''craft_plank'')]\<rparr>)"
proof -
  define S1 where "S1 = AList.update ''wood'' 0 (AList.update ''plank'' 4 S)"
  have ne: "S1 \<noteq> S" "S \<noteq> S1" using plank_state_new [OF p] by (auto simp: S1_def)
  have g: "graph [make_recipe ''craft_plank'' craft_plank] S = ([(''craft_plank'', S1, 1)], None)"
    unfolding S1_def by (rule craft_plank_expansion_any [OF d w p])
  have g0: "make_goal_checker [(''plank'', 4)] S = Return False" by (rule plank_goal_start [OF p])
  have g1: "make_goal_checker [(''plank'', 4)] S1 = Return True"
    unfolding S1_def by (rule plank_goal_reached)
  have h1: "heuristic_fn S1 = Return v" using h by (simp add: S1_def)
  have "search_run clock (Suc (Suc (Suc fuel))) (graph [make_recipe ''craft_plank'' craft_plank])
      S (make_goal_checker [(''plank'', 4)]) limit heuristic_fn =
    Some (Return
      \<lparr>queue = [], costs = [S \<mapsto> Fin 0, S1 \<mapsto> Fin 1], prev = [S \<mapsto> None, S1 \<mapsto> Some S],
       actions = [S \<mapsto> None, S1 \<mapsto> Some ''craft_plank''], visited = [S, S1],
       path = [(S, None), (S1, Some ''craft_plank'')]\<rparr>)"
    using c0 c1
    by (simp add: search_run_def init_def heappop_single g g0 g1 h1 ne relax_def heappush_def
        num_add_one del: graph.simps make_goal_checker.simps)
  then show ?thesis unfolding S1_def .
qed

text \<open>
  Claim C8, as amended. The catalog has wood and plank, in any order and with or
  without further items; the only recipe is \<^verbatim>\<open>craft_plank\<close> (consumes one wood, produces
  four planks, cost 1), the start state has one wood and no plank, the goal is four
  planks, and the first two tests of the loop condition find the elapsed time below the
  budget. The recipe leads to the state with the same keys in the same order, four
  planks, no wood and every other item as it was. With a heuristic that returns a value
  on that state, \<^verbatim>\<open>search\<close> returns the plan of one step: the start state with no
  action, then that state with the action \<^verbatim>\<open>craft_plank\<close>, whose recorded cost is 1.
\<close>

theorem plank_scenario:
  assumes "distinct (map fst S)"
    and "map_of S ''wood'' = Some 1" and "map_of S ''plank'' = Some 0"
    and "heuristic_fn (AList.update ''wood'' 0 (AList.update ''plank'' 4 S)) = Return v"
    and "int (clock 0) < limit" and "int (clock 1) < limit"
  shows "search clock (Suc (Suc (Suc fuel))) (graph [make_recipe ''craft_plank'' craft_plank])
      S (make_goal_checker [(''plank'', 4)]) limit heuristic_fn =
    Some (Return (Some
      [(S, None), (AList.update ''wood'' 0 (AList.update ''plank'' 4 S), Some ''craft_plank'')])) \<and>
   search_run clock (Suc (Suc (Suc fuel))) (graph [make_recipe ''craft_plank'' craft_plank])
      S (make_goal_checker [(''plank'', 4)]) limit heuristic_fn =
    Some (Return
      \<lparr>queue = [],
       costs = [S \<mapsto> Fin 0, AList.update ''wood'' 0 (AList.update ''plank'' 4 S) \<mapsto> Fin 1],
       prev = [S \<mapsto> None, AList.update ''wood'' 0 (AList.update ''plank'' 4 S) \<mapsto> Some S],
       actions = [S \<mapsto> None,
                  AList.update ''wood'' 0 (AList.update ''plank'' 4 S) \<mapsto> Some ''craft_plank''],
       visited = [S, AList.update ''wood'' 0 (AList.update ''plank'' 4 S)],
       path = [(S, None),
               (AList.update ''wood'' 0 (AList.update ''plank'' 4 S), Some ''craft_plank'')]\<rparr>) \<and>
   map fst (AList.update ''wood'' 0 (AList.update ''plank'' 4 S)) = map fst S \<and>
   map_of (AList.update ''wood'' 0 (AList.update ''plank'' 4 S)) =
     (map_of S)(''plank'' \<mapsto> 4, ''wood'' \<mapsto> 0)"
proof -
  from assms(2,3) have "''wood'' \<in> fst ` set S" "''plank'' \<in> fst ` set S"
    by (auto dest!: map_of_SomeD intro: rev_image_eqI)
  then have k: "map fst (AList.update ''wood'' 0 (AList.update ''plank'' 4 S)) = map fst S"
    by (simp add: update_keys)
  show ?thesis
    unfolding search_def
      craft_plank_run_any [where S = S and heuristic_fn = heuristic_fn and v = v and clock = clock
        and limit = limit and fuel = fuel, OF assms]
    using k by (simp add: update_conv')
qed

theorem plank_scenario_witness:
  "search steady_clock (Suc (Suc (Suc 0))) (graph [make_recipe ''craft_plank'' craft_plank])
      (tools_and_materials 1) (make_goal_checker [(''plank'', 4)]) 30 heuristic =
    Some (Return (Some
      [(tools_and_materials 1, None),
       ([(''bench'', 0), (''coal'', 0), (''cobble'', 0), (''furnace'', 0), (''ingot'', 0),
         (''iron_axe'', 0), (''iron_pickaxe'', 0), (''ore'', 0), (''plank'', 4), (''stick'', 0),
         (''stone_axe'', 0), (''stone_pickaxe'', 0), (''wood'', 0), (''wooden_axe'', 0),
         (''wooden_pickaxe'', 0)], Some ''craft_plank'')])) \<and>
   search steady_clock (Suc (Suc (Suc 0))) (graph [make_recipe ''craft_plank'' craft_plank])
      [(''wood'', 1), (''plank'', 0)] (make_goal_checker [(''plank'', 4)]) 30
      (\<lambda>state. Return (Fin 0)) =
    Some (Return (Some
      [([(''wood'', 1), (''plank'', 0)], None),
       ([(''wood'', 0), (''plank'', 4)], Some ''craft_plank'')]))"
proof -
  have c: "int (steady_clock 0) < 30" "int (steady_clock 1) < 30"
    by (simp_all add: steady_clock_def)
  have d: "distinct (map fst (tools_and_materials 1))"
    and w: "map_of (tools_and_materials 1) ''wood'' = Some 1"
    and p: "map_of (tools_and_materials 1) ''plank'' = Some 0"
    by (simp_all add: tools_and_materials_def)
  have h: "heuristic (AList.update ''wood'' 0 (AList.update ''plank'' 4 (tools_and_materials 1))) =
      Return (Fin 0)"
    by (simp add: heuristic_def tools_def materials_with_heuristic_value_def getitem_def
        tools_and_materials_def)
  have d2: "distinct (map fst [(''wood'', 1 :: int), (''plank'', 0)])"
    and w2: "map_of [(''wood'', 1 :: int), (''plank'', 0)] ''wood'' = Some 1"
    and p2: "map_of [(''wood'', 1 :: int), (''plank'', 0)] ''plank'' = Some 0"
    by simp_all
  have h2: "(\<lambda>state :: State. Return (Fin 0))
      (AList.update ''wood'' 0 (AList.update ''plank'' 4 [(''wood'', 1), (''plank'', 0)])) =
      Return (Fin 0)"
    by simp
  from plank_scenario [where S = "tools_and_materials 1" and heuristic_fn = heuristic
      and v = "Fin 0" and clock = steady_clock and limit = 30 and fuel = 0, OF d w p h c]
    plank_scenario [where S = "[(''wood'', 1), (''plank'', 0)]"
      and heuristic_fn = "\<lambda>state. Return (Fin 0)"
      and v = "Fin 0" and clock = steady_clock and limit = 30 and fuel = 0, OF d2 w2 p2 h2 c]
  show ?thesis by (simp add: tools_and_materials_def)
qed

text \<open>
  On the catalog of wood and plank alone, with the start state in the order of the
  claim, the heuristic of the program does not return a value on the state with four
  planks: its first lookup is \<^verbatim>\<open>state['furnace']\<close>, and the search ends with that
  \<^verbatim>\<open>KeyError\<close>.
\<close>

theorem plank_scenario_heuristic_raises:
  "search steady_clock (Suc (Suc (Suc 0))) (graph [make_recipe ''craft_plank'' craft_plank])
      [(''wood'', 1), (''plank'', 0)] (make_goal_checker [(''plank'', 4)]) 30 heuristic =
    Some (Raise (KeyError ''furnace''))"
proof -
  have d: "distinct (map fst [(''wood'', 1), (''plank'', 0 :: int)])" by simp
  have h: "heuristic [(''wood'', 0), (''plank'', 4)] = Raise (KeyError ''furnace'')"
    by (simp add: heuristic_def tools_def getitem_def)
  show ?thesis
    by (simp add: search_def search_run_def init_def heappop_single craft_plank_expansion [OF d]
        getitem_def relax_def steady_clock_def h del: graph.simps)
qed

subsection \<open>Search: an empty frontier\<close>

lemma craft_plank_no_wood:
  "graph [make_recipe ''craft_plank'' craft_plank] ((''wood'', 0) # (''plank'', 4) # extra) =
     ([], None)"
  by (simp add: make_recipe_def craft_plank_def make_checker_def getitem_def)

lemma heuristic_four_planks:
  "heuristic ((''wood'', 0) # (''plank'', 4) # other_items) = Return (Fin 0)"
  by (simp add: heuristic_def tools_def materials_with_heuristic_value_def getitem_def
      other_items_def)

text \<open>
  Claim C2 says that \<^verbatim>\<open>search\<close> never raises, also when the frontier becomes empty
  before the budget is used up. Take the fifteen items of the heuristic as the catalog,
  the recipe \<^verbatim>\<open>craft_plank\<close> alone, one wood to start with and a goal of five planks,
  which no chain of recipes reaches. The first iteration pops the start entry and pushes
  the state with four planks; the second pops that state, to which no recipe applies;
  the third, still within the budget of 30, calls \<^verbatim>\<open>heappop\<close> on the empty frontier,
  which raises \<^verbatim>\<open>IndexError\<close>.
\<close>

theorem search_empty_frontier:
  "search steady_clock (Suc (Suc (Suc fuel))) (graph [make_recipe ''craft_plank'' craft_plank])
     ((''wood'', 1) # (''plank'', 0) # other_items) (make_goal_checker [(''plank'', 5)]) 30
     heuristic = Some (Raise IndexError)"
proof -
  have d: "distinct (map fst ((''wood'', 1) # (''plank'', 0) # other_items))"
    by (simp add: other_items_def)
  show ?thesis
    by (simp add: search_def search_run_def init_def heappop_single craft_plank_expansion [OF d]
        craft_plank_no_wood heuristic_four_planks getitem_def relax_def heappush_def
        steady_clock_def heappop_def del: graph.simps)
qed

subsection \<open>Search: the cost of a neighbour\<close>

lemma tools_and_materials_eq: "(tools_and_materials a = tools_and_materials b) = (a = b)"
  by (simp add: tools_and_materials_def)

lemma punch_expansion:
  "graph [make_recipe ''punch for wood'' punch_for_wood] (tools_and_materials w) =
     ([(''punch for wood'', tools_and_materials (w + 1), 4)], None)"
  by (simp add: make_recipe_def punch_for_wood_def make_checker_def make_effector_def getitem_def
      copy_def update_from_def tools_and_materials_def)

lemma wood_goal: "make_goal_checker [(''wood'', n)] (tools_and_materials w) = Return (\<not> w < n)"
  by (simp add: getitem_def tools_and_materials_def)

lemma heuristic_wood: "heuristic (tools_and_materials w) = Return (if 1 < w then PInf else Fin 0)"
  using heuristic_covered [of "tools_and_materials w"]
  by (simp add: tools_and_materials_def tools_def materials_with_heuristic_value_def)

lemma punch_run:
  "search_run steady_clock (Suc (Suc (Suc (Suc (Suc 0)))))
      (graph [make_recipe ''punch for wood'' punch_for_wood]) (tools_and_materials 1)
      (make_goal_checker [(''wood'', 3)]) 30 heuristic = Some (Return punch_locals)"
  unfolding punch_locals_def
  by (simp add: search_run_def init_def heappop_single punch_expansion wood_goal heuristic_wood
      tools_and_materials_eq relax_def heappush_def steady_clock_def float_limit_def
      del: graph.simps make_goal_checker.simps)

text \<open>
  Claim C1 says that the cost recorded for an admitted neighbour is the cost recorded
  for the popped state plus the cost of the step. \<^verbatim>\<open>search\<close> adds the cost of the step to
  \<^verbatim>\<open>current_cost\<close>, the first component of the popped entry, which is the priority the
  state was pushed with: its cost plus its heuristic value. The only recipe here gives
  one wood at cost 4, the start state has one wood and the goal is three. The state
  with two pieces of wood has the cost 4 and the heuristic value infinity; when it is
  popped, its neighbour with three pieces is admitted with the cost infinity, and not 8.
\<close>

theorem search_cost_after_infinite_priority:
  "search_run steady_clock (Suc (Suc (Suc (Suc (Suc 0)))))
      (graph [make_recipe ''punch for wood'' punch_for_wood]) (tools_and_materials 1)
      (make_goal_checker [(''wood'', 3)]) 30 heuristic = Some (Return punch_locals) \<and>
   prev punch_locals (tools_and_materials 3) = Some (Some (tools_and_materials 2)) \<and>
   costs punch_locals (tools_and_materials 2) = Some (Fin 4) \<and>
   costs punch_locals (tools_and_materials 3) = Some PInf"
  using punch_run by (simp add: punch_locals_def tools_and_materials_eq)

subsection \<open>Search: the visited list\<close>

lemma relax_cases:
  assumes "relax heuristic_fn cc cs l (a, n, c) = Return l'"
  shows "l' = l \<or>
    (\<exists>new_cost h p. num_add cc (Fin c) = Return new_cost \<and> heuristic_fn n = Return h \<and>
       num_add new_cost h = Return p \<and> n \<notin> set (visited l) \<and>
       l' = l\<lparr>costs := (costs l)(n \<mapsto> new_cost),
               actions := (actions l)(n \<mapsto> Some a),
               visited := visited l @ [n],
               queue := queue l @ [(p, n, Some a)],
               prev := (prev l)(n \<mapsto> Some cs)\<rparr>)"
  using assms
  by (auto simp: relax_def heappush_def split: result.splits if_splits)

lemma relax_visited:
  assumes "n \<in> set (visited l)" and "relax heuristic_fn cc cs l (a, n, c) = Return l'"
  shows "l' = l"
  using relax_cases [OF assms(2)] assms(1) by auto

lemma least_in: "least m xs \<in> set (m # xs)"
  by (induction xs arbitrary: m) auto

lemma heappop_Return:
  assumes "heappop q = Return (m, rest)"
  shows "m \<in> set q \<and> rest = remove1 m q"
proof (cases q)
  case Nil
  with assms show ?thesis by (simp add: heappop_def)
next
  case (Cons e es)
  with assms have "m = least e es" "rest = remove1 m q"
    by (auto simp: heappop_def Let_def)
  with Cons least_in [of e es] show ?thesis by simp
qed

lemma distinct_map_remove1:
  assumes "distinct (map f xs)"
  shows "distinct (map f (remove1 x xs))"
proof -
  from assms have "distinct xs" and "inj_on f (set xs)" by (simp_all add: distinct_map)
  then have "distinct (remove1 x xs)" and "inj_on f (set (remove1 x xs))"
    by (auto intro: inj_on_subset set_remove1_subset [THEN subsetD])
  then show ?thesis by (simp add: distinct_map)
qed

lemma frontier_inv_pop:
  assumes "frontier_inv l" and "heappop (queue l) = Return (m, rest)"
  shows "frontier_inv (l\<lparr>queue := rest\<rparr>)"
proof -
  from heappop_Return [OF assms(2)] have r: "rest = remove1 m (queue l)" by simp
  have "set rest \<subseteq> set (queue l)" unfolding r by (rule set_remove1_subset)
  with assms(1) show ?thesis
    unfolding r frontier_inv_def by (auto simp: distinct_map_remove1 image_subset_iff)
qed

lemma frontier_inv_relax:
  assumes "frontier_inv l" and "relax heuristic_fn cc cs l e = Return l'"
  shows "frontier_inv l'"
proof -
  obtain a n c where e: "e = (a, n, c)" by (cases e)
  from relax_cases [OF assms(2) [unfolded e]] show ?thesis
  proof
    assume "l' = l"
    with assms(1) show ?thesis by simp
  next
    assume "\<exists>new_cost h p. num_add cc (Fin c) = Return new_cost \<and> heuristic_fn n = Return h \<and>
       num_add new_cost h = Return p \<and> n \<notin> set (visited l) \<and>
       l' = l\<lparr>costs := (costs l)(n \<mapsto> new_cost),
               actions := (actions l)(n \<mapsto> Some a),
               visited := visited l @ [n],
               queue := queue l @ [(p, n, Some a)],
               prev := (prev l)(n \<mapsto> Some cs)\<rparr>"
    then obtain p where n: "n \<notin> set (visited l)"
      and v: "visited l' = visited l @ [n]" and q: "queue l' = queue l @ [(p, n, Some a)]"
      by auto
    from assms(1) have d: "distinct (visited l)" "distinct (map (fst \<circ> snd) (queue l))"
      and s: "(fst \<circ> snd) ` set (queue l) \<subseteq> set (visited l)"
      by (simp_all add: frontier_inv_def)
    from s n have "n \<notin> (fst \<circ> snd) ` set (queue l)" by blast
    with d n s show ?thesis
      unfolding frontier_inv_def v q by auto
  qed
qed

lemma frontier_inv_relax_all:
  assumes "frontier_inv l" and "relax_all heuristic_fn cc cs l es = Return l'"
  shows "frontier_inv l'"
  using assms
proof (induction es arbitrary: l)
  case Nil
  then show ?case by simp
next
  case (Cons e es)
  then obtain l1 where l1: "relax heuristic_fn cc cs l e = Return l1"
    "relax_all heuristic_fn cc cs l1 es = Return l'"
    by (auto split: result.splits)
  from Cons.prems(1) l1(1) have "frontier_inv l1" by (rule frontier_inv_relax)
  then show ?case using l1(2) by (rule Cons.IH)
qed

lemma search_loop_Suc_cases:
  assumes "search_loop clock graph_fn is_goal limit heuristic_fn (Suc fuel) k l = Some (Return lf)"
  obtains
    (expired) "\<not> int (clock k) < limit" "lf = l"
  | (goal) cc cs ca rest p where "int (clock k) < limit"
      "heappop (queue l) = Return ((cc, cs, ca), rest)" "is_goal cs = Return True"
      "lf = l\<lparr>queue := rest, path := p\<rparr>"
  | (expand) cc cs ca rest edges l' where "int (clock k) < limit"
      "heappop (queue l) = Return ((cc, cs, ca), rest)" "is_goal cs = Return False"
      "graph_fn cs = (edges, None)"
      "relax_all heuristic_fn cc cs (l\<lparr>queue := rest\<rparr>) edges = Return l'"
      "search_loop clock graph_fn is_goal limit heuristic_fn fuel (Suc k) l' = Some (Return lf)"
  using assms
  by (auto split: if_splits result.splits option.splits prod.splits bool.splits)

lemma search_loop_inv:
  assumes "frontier_inv l"
    and "search_loop clock graph_fn is_goal limit heuristic_fn fuel k l = Some (Return lf)"
  shows "frontier_inv lf"
  using assms
proof (induction fuel arbitrary: k l)
  case 0
  then show ?case by simp
next
  case (Suc fuel)
  from Suc.prems(2) show ?case
  proof (cases rule: search_loop_Suc_cases)
    case expired
    with Suc.prems(1) show ?thesis by simp
  next
    case (goal cc cs ca rest p)
    from Suc.prems(1) goal(2) have "frontier_inv (l\<lparr>queue := rest\<rparr>)" by (rule frontier_inv_pop)
    then show ?thesis unfolding goal(4) by (simp add: frontier_inv_def)
  next
    case (expand cc cs ca rest edges l')
    from Suc.prems(1) expand(2) have "frontier_inv (l\<lparr>queue := rest\<rparr>)" by (rule frontier_inv_pop)
    then have "frontier_inv l'" using expand(5) by (rule frontier_inv_relax_all)
    then show ?thesis using expand(6) by (rule Suc.IH)
  qed
qed

lemma frontier_inv_init: "frontier_inv (init state)"
  by (simp add: frontier_inv_def init_def)

text \<open>
  The states pushed are new to the visited list and are added to it in the order they
  are pushed.
\<close>

lemma relax_log_Raise:
  "relax heuristic_fn cc cs l e = Raise x \<Longrightarrow> relax_log heuristic_fn cc cs l e = []"
  by (simp add: relax_log_def)

lemma relax_log_Return:
  assumes "relax heuristic_fn cc cs l (a, n, c) = Return l'"
  shows "(l' = l \<and> relax_log heuristic_fn cc cs l (a, n, c) = []) \<or>
    (n \<notin> set (visited l) \<and> visited l' = visited l @ [n] \<and>
     relax_log heuristic_fn cc cs l (a, n, c) = [n])"
  using relax_cases [OF assms] assms by (auto simp: relax_log_def)

lemma relax_log_visited:
  assumes "distinct (visited l)"
  shows "distinct (visited l @ relax_log heuristic_fn cc cs l e) \<and>
    (\<forall>l'. relax heuristic_fn cc cs l e = Return l' \<longrightarrow>
       visited l' = visited l @ relax_log heuristic_fn cc cs l e)"
proof (cases "relax heuristic_fn cc cs l e")
  case (Raise x)
  with assms show ?thesis by (simp add: relax_log_Raise)
next
  case (Return l')
  obtain a n c where e: "e = (a, n, c)" by (cases e)
  from relax_log_Return [OF Return [unfolded e]] assms Return show ?thesis
    unfolding e by auto
qed

lemma relax_all_log_visited:
  assumes "distinct (visited l)"
  shows "distinct (visited l @ relax_all_log heuristic_fn cc cs l es) \<and>
    (\<forall>l'. relax_all heuristic_fn cc cs l es = Return l' \<longrightarrow>
       visited l' = visited l @ relax_all_log heuristic_fn cc cs l es)"
  using assms
proof (induction es arbitrary: l)
  case Nil
  then show ?case by simp
next
  case (Cons e es)
  from relax_log_visited [OF Cons.prems, of heuristic_fn cc cs e]
  have d: "distinct (visited l @ relax_log heuristic_fn cc cs l e)"
    and v: "\<And>l'. relax heuristic_fn cc cs l e = Return l' \<Longrightarrow>
       visited l' = visited l @ relax_log heuristic_fn cc cs l e"
    by auto
  show ?case
  proof (cases "relax heuristic_fn cc cs l e")
    case (Raise x)
    with d show ?thesis by simp
  next
    case (Return l1)
    from v [OF Return] have v1: "visited l1 = visited l @ relax_log heuristic_fn cc cs l e" .
    with d have "distinct (visited l1)" by simp
    from Cons.IH [OF this] v1 Return show ?thesis by simp
  qed
qed

lemma search_loop_log_distinct:
  assumes "distinct (visited l)"
    and "search_loop_log clock graph_fn is_goal limit heuristic_fn fuel k l = Some pushed"
  shows "distinct (visited l @ pushed)"
  using assms
proof (induction fuel arbitrary: k l pushed)
  case 0
  then show ?case by simp
next
  case (Suc fuel)
  show ?case
  proof (cases "int (clock k) < limit")
    case False
    with Suc.prems show ?thesis by simp
  next
    case True
    show ?thesis
    proof (cases "heappop (queue l)")
      case (Raise x)
      with True Suc.prems show ?thesis by simp
    next
      case (Return r)
      obtain cc cs ca rest where r: "r = ((cc, cs, ca), rest)" by (cases r) auto
      show ?thesis
      proof (cases "is_goal cs")
        case (Raise x)
        with True Return r Suc.prems show ?thesis by simp
      next
        case g: (Return b)
        show ?thesis
        proof (cases b)
          case True
          with \<open>int (clock k) < limit\<close> Return r g Suc.prems show ?thesis by simp
        next
          case False
          obtain edges err where ge: "graph_fn cs = (edges, err)" by (cases "graph_fn cs")
          let ?l0 = "l\<lparr>queue := rest\<rparr>"
          let ?lg = "relax_all_log heuristic_fn cc cs ?l0 edges"
          from Suc.prems(1) have d0: "distinct (visited ?l0)" by simp
          from relax_all_log_visited [OF d0, of heuristic_fn cc cs edges]
          have d: "distinct (visited l @ ?lg)"
            and v: "\<And>l'. relax_all heuristic_fn cc cs ?l0 edges = Return l' \<Longrightarrow>
               visited l' = visited l @ ?lg"
            by auto
          show ?thesis
          proof (cases "relax_all heuristic_fn cc cs ?l0 edges")
            case (Raise x)
            with \<open>int (clock k) < limit\<close> Return r g False ge Suc.prems(2) d
            show ?thesis by simp
          next
            case ra: (Return l')
            show ?thesis
            proof (cases err)
              case (Some x)
              with \<open>int (clock k) < limit\<close> Return r g False ge ra Suc.prems(2) d
              show ?thesis by simp
            next
              case None
              with \<open>int (clock k) < limit\<close> Return r g False ge ra Suc.prems(2)
              obtain rest_log where rl:
                "search_loop_log clock graph_fn is_goal limit heuristic_fn fuel (Suc k) l' =
                   Some rest_log"
                "pushed = ?lg @ rest_log"
                by (auto split: option.splits)
              from v [OF ra] d have "distinct (visited l')" by simp
              from Suc.IH [OF this rl(1)] v [OF ra] rl(2) show ?thesis by simp
            qed
          qed
        qed
      qed
    qed
  qed
qed

lemma search_loop_log_visited:
  assumes "search_loop clock graph_fn is_goal limit heuristic_fn fuel k l = Some (Return lf)"
    and "distinct (visited l)"
  shows "\<exists>pushed. search_loop_log clock graph_fn is_goal limit heuristic_fn fuel k l = Some pushed \<and>
    visited lf = visited l @ pushed"
  using assms
proof (induction fuel arbitrary: k l)
  case 0
  then show ?case by simp
next
  case (Suc fuel)
  from Suc.prems(1) show ?case
  proof (cases rule: search_loop_Suc_cases)
    case expired
    then show ?thesis by simp
  next
    case (goal cc cs ca rest p)
    then show ?thesis by simp
  next
    case (expand cc cs ca rest edges l')
    let ?l0 = "l\<lparr>queue := rest\<rparr>"
    let ?lg = "relax_all_log heuristic_fn cc cs ?l0 edges"
    from Suc.prems(2) have d0: "distinct (visited ?l0)" by simp
    from relax_all_log_visited [OF d0, of heuristic_fn cc cs edges] expand(5)
    have d: "distinct (visited l @ ?lg)" and v: "visited l' = visited l @ ?lg"
      by auto
    then have "distinct (visited l')" by simp
    from Suc.IH [OF expand(6) this] obtain rest_log where rl:
      "search_loop_log clock graph_fn is_goal limit heuristic_fn fuel (Suc k) l' = Some rest_log"
      "visited lf = visited l' @ rest_log"
      by blast
    with expand v show ?thesis by simp
  qed
qed

text \<open>
  Claim C3. The states put on the frontier in one call of \<^verbatim>\<open>search\<close>, the start state
  first, are all different, whether the call returns or raises: no state is inserted
  twice. When the call returns, the list of these states is the visited list: a state
  is marked visited when it is put on the frontier, and at no other time, so not when
  it is popped; the frontier then has no two entries with the same state, and every
  state on it is in the visited list. In one pass through the body of the \<^verbatim>\<open>for\<close> loop,
  a neighbour that is in the visited list already is not admitted, whatever its new
  cost is (the local variables stay as they are), and a neighbour that is admitted is
  added to the visited list in the step that pushes it.
\<close>

theorem visited_at_admission:
  "(search_pushes clock fuel graph_fn state is_goal limit heuristic_fn = Some pushed \<longrightarrow>
      distinct pushed) \<and>
   (search_run clock fuel graph_fn state is_goal limit heuristic_fn = Some (Return lf) \<longrightarrow>
      search_pushes clock fuel graph_fn state is_goal limit heuristic_fn = Some (visited lf) \<and>
      distinct (visited lf) \<and> distinct (map (fst \<circ> snd) (queue lf)) \<and>
      (fst \<circ> snd) ` set (queue lf) \<subseteq> set (visited lf)) \<and>
   (relax heuristic_fn cc cs l (a, n, c) = Return l' \<longrightarrow>
      (n \<in> set (visited l) \<longrightarrow> l' = l) \<and>
      (l' \<noteq> l \<longrightarrow> n \<notin> set (visited l) \<and> visited l' = visited l @ [n] \<and>
         relax_log heuristic_fn cc cs l (a, n, c) = [n] \<and>
         (\<exists>p. queue l' = heappush (queue l) (p, n, Some a))))"
proof (intro conjI impI)
  assume "search_pushes clock fuel graph_fn state is_goal limit heuristic_fn = Some pushed"
  then obtain lg where lg:
    "search_loop_log clock graph_fn is_goal limit heuristic_fn fuel 0 (init state) = Some lg"
    and p: "pushed = state # lg"
    by (auto simp: search_pushes_def init_def split: option.splits)
  have "distinct (visited (init state))" by (simp add: init_def)
  from search_loop_log_distinct [OF this lg] show "distinct pushed"
    by (simp add: p init_def)
next
  assume "search_run clock fuel graph_fn state is_goal limit heuristic_fn = Some (Return lf)"
  then have run: "search_loop clock graph_fn is_goal limit heuristic_fn fuel 0 (init state) =
      Some (Return lf)"
    by (simp add: search_run_def)
  have "distinct (visited (init state))" by (simp add: init_def)
  from search_loop_log_visited [OF run this]
  show "search_pushes clock fuel graph_fn state is_goal limit heuristic_fn = Some (visited lf)"
    by (auto simp: search_pushes_def init_def)
  from frontier_inv_init run have "frontier_inv lf" by (rule search_loop_inv)
  then show "distinct (visited lf)" "distinct (map (fst \<circ> snd) (queue lf))"
    "(fst \<circ> snd) ` set (queue lf) \<subseteq> set (visited lf)"
    by (simp_all add: frontier_inv_def)
next
  assume r: "relax heuristic_fn cc cs l (a, n, c) = Return l'"
  { assume "n \<in> set (visited l)"
    then show "l' = l" using r by (rule relax_visited) }
  { assume ne: "l' \<noteq> l"
    with relax_cases [OF r]
    show "n \<notin> set (visited l)" "visited l' = visited l @ [n]"
      "\<exists>p. queue l' = heappush (queue l) (p, n, Some a)"
      by (auto simp: heappush_def)
    from relax_log_Return [OF r] ne
    show "relax_log heuristic_fn cc cs l (a, n, c) = [n]" by auto }
qed

theorem visited_at_admission_witness:
  "search_pushes steady_clock (Suc (Suc (Suc (Suc (Suc 0)))))
      (graph [make_recipe ''punch for wood'' punch_for_wood]) (tools_and_materials 1)
      (make_goal_checker [(''wood'', 3)]) 30 heuristic =
     Some [tools_and_materials 1, tools_and_materials 2, tools_and_materials 3] \<and>
   distinct [tools_and_materials 1, tools_and_materials 2, tools_and_materials 3] \<and>
   num_less (Fin 8) PInf \<and> costs punch_locals (tools_and_materials 3) = Some PInf \<and>
   relax heuristic (Fin 0) (tools_and_materials 1) punch_locals
     (''punch for wood'', tools_and_materials 3, 8) = Return punch_locals"
proof -
  have r: "relax heuristic (Fin 0) (tools_and_materials 1) punch_locals
     (''punch for wood'', tools_and_materials 3, 8) = Return punch_locals"
    by (simp add: relax_def punch_locals_def)
  note t = visited_at_admission [of steady_clock "Suc (Suc (Suc (Suc (Suc 0))))"
      "graph [make_recipe ''punch for wood'' punch_for_wood]" "tools_and_materials 1"
      "make_goal_checker [(''wood'', 3)]" 30 heuristic "visited punch_locals" punch_locals
      "Fin 0" "tools_and_materials 1" punch_locals
      "''punch for wood''" "tools_and_materials 3" 8 punch_locals]
  from t punch_run have p: "search_pushes steady_clock (Suc (Suc (Suc (Suc (Suc 0)))))
      (graph [make_recipe ''punch for wood'' punch_for_wood]) (tools_and_materials 1)
      (make_goal_checker [(''wood'', 3)]) 30 heuristic = Some (visited punch_locals)"
    by simp
  with t have "distinct (visited punch_locals)" by simp
  with p r show ?thesis by (simp add: punch_locals_def)
qed


end
